theory Spec2Isabelle
  imports Main "HOL-Library.Multiset" "HOL-Library.Word"
begin

section \<open>Data model (src/src/db.ts)\<close>

text \<open>
  A JavaScript string is a sequence of UTF-16 code units. \<open>ascii\<close> gives the code units of a
  literal written with ASCII characters.
\<close>

type_synonym code_unit = "16 word"

type_synonym js_string = "code_unit list"

definition ascii :: "string \<Rightarrow> js_string" where
  "ascii s = map (\<lambda>c. of_nat (of_char c)) s"

text \<open>
  A row of the local table \<^verbatim>\<open>todos\<close> (interface \<^verbatim>\<open>Todo\<close>, db.ts lines 120-128, and the
  \<^verbatim>\<open>CREATE TABLE\<close> of lines 23-33). The columns \<^verbatim>\<open>id\<close> and \<^verbatim>\<open>text\<close> are called
  \<open>todo_id\<close> and \<open>todo_text\<close> here. The integer columns keep their integer type, as the
  code tests them with \<^verbatim>\<open>is_deleted === 1\<close>, \<^verbatim>\<open>dirty = 1\<close> and \<^verbatim>\<open>dirty = 0\<close>.
\<close>

record todo =
  todo_id :: int
  remote_id :: "int option"
  todo_text :: js_string
  completed :: int
  dirty :: int
  is_deleted :: int
  created_at :: int

text \<open>
  The local database: the table in rowid order and the AUTOINCREMENT high-water mark
  (the largest id ever handed out).
\<close>

record local_db =
  rows :: "todo list"
  autoinc :: int

text \<open>A row of the remote table, with the three columns the code reads and writes.\<close>

record remote_row =
  rid :: int
  rtext :: js_string
  rcompleted :: int

text \<open>The four statements the code sends through \<^verbatim>\<open>remoteClient.execute\<close>.\<close>

datatype remote_call =
    RDelete int
  | RInsert js_string int
  | RUpdate js_string int int
  | RSelect

text \<open>
  The remote database: its table and the log of every statement sent to it
  (including the ones that failed).
\<close>

record remote_db =
  r_rows :: "remote_row list"
  r_log :: "remote_call list"

datatype error = RemoteUnavailable | RemoteRejected | LocalStoreError | TypeError

text \<open>\<^verbatim>\<open>syncWithRemote\<close> returns \<^verbatim>\<open>true\<close> or rethrows what it caught.\<close>

datatype outcome = Completed | Failed error

text \<open>
  What the code does not decide: whether the \<open>n\<close>-th statement sent to the remote fails
  (and how), which id the remote assigns to an inserted row, the value of
  \<^verbatim>\<open>unixepoch()\<close> when the \<open>k\<close>-th row of the pulled snapshot is inserted, and whether the
  local engine uses up the id it has prepared for an INSERT that ends as an UPDATE (an
  AUTOINCREMENT table may leave such gaps).
\<close>

record env =
  fault :: "nat \<Rightarrow> error option"
  alloc :: "remote_row list \<Rightarrow> int"
  clock :: "nat \<Rightarrow> int"
  burn_id :: bool

section \<open>The remote client\<close>

text \<open>
  \<^verbatim>\<open>remoteClient.execute\<close>: the statement is logged; it throws when the environment says so,
  and otherwise runs on the remote table and returns its result rows.
  \<^item> \<^verbatim>\<open>DELETE FROM todos WHERE id = ?\<close>
  \<^item> \<^verbatim>\<open>INSERT INTO todos (text, completed) VALUES (?, ?) RETURNING id\<close>
  \<^item> \<^verbatim>\<open>UPDATE todos SET text = ?, completed = ? WHERE id = ?\<close>
  \<^item> \<^verbatim>\<open>SELECT * FROM todos\<close>
\<close>

fun run_remote :: "env \<Rightarrow> remote_call \<Rightarrow> remote_row list \<Rightarrow> remote_row list \<times> remote_row list" where
  "run_remote e (RDelete i) rs = ([], filter (\<lambda>x. rid x \<noteq> i) rs)"
| "run_remote e (RInsert t c) rs =
     (let row = \<lparr>rid = alloc e rs, rtext = t, rcompleted = c\<rparr> in ([row], rs @ [row]))"
| "run_remote e (RUpdate t c i) rs =
     ([], map (\<lambda>x. if rid x = i then x\<lparr>rtext := t, rcompleted := c\<rparr> else x) rs)"
| "run_remote e RSelect rs = (rs, rs)"

definition execute :: "env \<Rightarrow> remote_call \<Rightarrow> remote_db \<Rightarrow> (error + remote_row list) \<times> remote_db" where
  "execute e c R =
     (case fault e (length (r_log R)) of
        Some err \<Rightarrow> (Inl err, R\<lparr>r_log := r_log R @ [c]\<rparr>)
      | None \<Rightarrow>
          (case run_remote e c (r_rows R) of
             (res, rs) \<Rightarrow> (Inr res, \<lparr>r_rows = rs, r_log = r_log R @ [c]\<rparr>)))"

section \<open>Statements on the local table\<close>

text \<open>\<^verbatim>\<open>SELECT * FROM todos WHERE remote_id IS NULL OR dirty = 1\<close> (db.ts line 51).\<close>

definition is_candidate :: "todo \<Rightarrow> bool" where
  "is_candidate r = (remote_id r = None \<or> dirty r = 1)"

definition listSyncCandidates :: "local_db \<Rightarrow> todo list" where
  "listSyncCandidates L = filter is_candidate (rows L)"

text \<open>\<^verbatim>\<open>DELETE FROM todos WHERE id = ?\<close> (line 63).\<close>

definition eraseLocal :: "int \<Rightarrow> local_db \<Rightarrow> local_db" where
  "eraseLocal i L = L\<lparr>rows := filter (\<lambda>r. todo_id r \<noteq> i) (rows L)\<rparr>"

text \<open>
  \<^verbatim>\<open>UPDATE todos SET remote_id = ?, dirty = 0 WHERE id = ?\<close> (line 72). The column
  \<^verbatim>\<open>remote_id\<close> is UNIQUE: the statement throws when it changes a row and another row
  already holds the new remote id.
\<close>

definition applyRemoteAssignment :: "int \<Rightarrow> int \<Rightarrow> local_db \<Rightarrow> error + local_db" where
  "applyRemoteAssignment n i L =
     (if (\<exists>r \<in> set (rows L). todo_id r = i) \<and>
         (\<exists>r \<in> set (rows L). todo_id r \<noteq> i \<and> remote_id r = Some n)
      then Inl LocalStoreError
      else Inr (L\<lparr>rows := map (\<lambda>r. if todo_id r = i then r\<lparr>remote_id := Some n, dirty := 0\<rparr> else r)
                               (rows L)\<rparr>))"

text \<open>\<^verbatim>\<open>UPDATE todos SET dirty = 0 WHERE id = ?\<close> (line 80).\<close>

definition clearDirty :: "int \<Rightarrow> local_db \<Rightarrow> local_db" where
  "clearDirty i L = L\<lparr>rows := map (\<lambda>r. if todo_id r = i then r\<lparr>dirty := 0\<rparr> else r) (rows L)\<rparr>"

text \<open>
  The two DELETE statements of lines 90-100. With a non-empty id list the statement is
  \<^verbatim>\<open>DELETE ... WHERE remote_id IS NOT NULL AND remote_id NOT IN (...) AND dirty = 0\<close>,
  with an empty one \<^verbatim>\<open>DELETE ... WHERE remote_id IS NOT NULL AND dirty = 0\<close>.
\<close>

definition deleteWhereRemoteIdNotIn :: "int list \<Rightarrow> local_db \<Rightarrow> local_db" where
  "deleteWhereRemoteIdNotIn remoteIds L =
     (if length remoteIds > 0 then
        L\<lparr>rows := filter (\<lambda>r. \<not> (case remote_id r of None \<Rightarrow> False
                                     | Some n \<Rightarrow> n \<notin> set remoteIds \<and> dirty r = 0)) (rows L)\<rparr>
      else
        L\<lparr>rows := filter (\<lambda>r. \<not> (remote_id r \<noteq> None \<and> dirty r = 0)) (rows L)\<rparr>)"

text \<open>
  The id an AUTOINCREMENT table gives to an inserted row: one more than the largest id
  the table has ever held.
\<close>

definition next_id :: "local_db \<Rightarrow> int" where
  "next_id L = max (autoinc L) (fold (\<lambda>r m. max (todo_id r) m) (rows L) 0) + 1"

text \<open>
  The \<^verbatim>\<open>DO UPDATE SET\<close> clause of lines 106-108, on the row in conflict:
  \<^verbatim>\<open>text = CASE WHEN dirty = 0 THEN excluded.text ELSE todos.text END\<close>, and the same
  for \<^verbatim>\<open>completed\<close>.
\<close>

definition onConflict :: "remote_row \<Rightarrow> todo \<Rightarrow> todo" where
  "onConflict s r =
     r\<lparr>todo_text := (if dirty r = 0 then rtext s else todo_text r),
       completed := (if dirty r = 0 then rcompleted s else completed r)\<rparr>"

text \<open>
  \<^verbatim>\<open>INSERT INTO todos (remote_id, text, completed, dirty, is_deleted) VALUES (?, ?, ?, 0, 0)
  ON CONFLICT(remote_id) DO UPDATE SET ...\<close> (lines 103-109), run at time \<open>now\<close>; \<open>b\<close> says
  whether an id is used up when the statement ends as an UPDATE.
\<close>

definition upsertFromRemote :: "bool \<Rightarrow> int \<Rightarrow> remote_row \<Rightarrow> local_db \<Rightarrow> local_db" where
  "upsertFromRemote b now s L =
     (if \<exists>r \<in> set (rows L). remote_id r = Some (rid s) then
        \<lparr>rows = map (\<lambda>r. if remote_id r = Some (rid s) then onConflict s r else r) (rows L),
         autoinc = (if b then next_id L else autoinc L)\<rparr>
      else
        \<lparr>rows = rows L @
           [\<lparr>todo_id = next_id L, remote_id = Some (rid s), todo_text = rtext s,
             completed = rcompleted s, dirty = 0, is_deleted = 0, created_at = now\<rparr>],
         autoinc = next_id L\<rparr>)"

section \<open>syncWithRemote (db.ts lines 46-118)\<close>

text \<open>
  The body of the push loop (lines 54-81) for one row \<open>t\<close> of \<^verbatim>\<open>localChanges\<close>. The tests
  \<^verbatim>\<open>if (todo.remote_id)\<close> and \<^verbatim>\<open>!todo.remote_id\<close> are JavaScript truthiness: null and 0
  are both falsy. An exception leaves the function at once, with what was written so far.
\<close>

definition truthy :: "int option \<Rightarrow> bool" where
  "truthy v = (case v of None \<Rightarrow> False | Some n \<Rightarrow> n \<noteq> 0)"

definition pushCandidate :: "env \<Rightarrow> todo \<Rightarrow> local_db \<Rightarrow> remote_db \<Rightarrow> outcome \<times> local_db \<times> remote_db" where
  "pushCandidate e t L R =
     (if is_deleted t = 1 then
        (case remote_id t of
           None \<Rightarrow> (Completed, eraseLocal (todo_id t) L, R)
         | Some n \<Rightarrow>
             if n \<noteq> 0 then
               (case execute e (RDelete n) R of
                  (Inl err, R') \<Rightarrow> (Failed err, L, R')
                | (Inr res, R') \<Rightarrow> (Completed, eraseLocal (todo_id t) L, R'))
             else (Completed, eraseLocal (todo_id t) L, R))
      else if \<not> truthy (remote_id t) then
        (case execute e (RInsert (todo_text t) (completed t)) R of
           (Inl err, R') \<Rightarrow> (Failed err, L, R')
         | (Inr res, R') \<Rightarrow>
             (case res of
                [] \<Rightarrow> (Failed TypeError, L, R')
              | row # rest \<Rightarrow>
                  (case applyRemoteAssignment (rid row) (todo_id t) L of
                     Inl err \<Rightarrow> (Failed err, L, R')
                   | Inr L' \<Rightarrow> (Completed, L', R'))))
      else
        (case remote_id t of
           None \<Rightarrow> (Completed, L, R)
         | Some n \<Rightarrow>
             (case execute e (RUpdate (todo_text t) (completed t) n) R of
                (Inl err, R') \<Rightarrow> (Failed err, L, R')
              | (Inr res, R') \<Rightarrow> (Completed, clearDirty (todo_id t) L, R'))))"

text \<open>The push loop, line 53: the rows of \<^verbatim>\<open>localChanges\<close> in order, until one throws.\<close>

fun pushAll :: "env \<Rightarrow> todo list \<Rightarrow> local_db \<Rightarrow> remote_db \<Rightarrow> outcome \<times> local_db \<times> remote_db" where
  "pushAll e [] L R = (Completed, L, R)"
| "pushAll e (t # ts) L R =
     (case pushCandidate e t L R of
        (Failed err, L', R') \<Rightarrow> (Failed err, L', R')
      | (Completed, L', R') \<Rightarrow> pushAll e ts L' R')"

text \<open>The upsert loop, lines 102-110; \<open>k\<close> counts the rows of the snapshot done so far.\<close>

fun upsertAll :: "bool \<Rightarrow> (nat \<Rightarrow> int) \<Rightarrow> nat \<Rightarrow> remote_row list \<Rightarrow> local_db \<Rightarrow> local_db" where
  "upsertAll b clk k [] L = L"
| "upsertAll b clk k (s # ss) L = upsertAll b clk (Suc k) ss (upsertFromRemote b (clk k) s L)"

text \<open>The pull phase after the snapshot has arrived (lines 86-110).\<close>

definition pullPhase :: "bool \<Rightarrow> (nat \<Rightarrow> int) \<Rightarrow> remote_row list \<Rightarrow> local_db \<Rightarrow> local_db" where
  "pullPhase b clk remoteTodos L =
     upsertAll b clk 0 remoteTodos (deleteWhereRemoteIdNotIn (map rid remoteTodos) L)"

definition syncWithRemote :: "env \<Rightarrow> local_db \<Rightarrow> remote_db \<Rightarrow> outcome \<times> local_db \<times> remote_db" where
  "syncWithRemote e L R =
     (case pushAll e (listSyncCandidates L) L R of
        (Failed err, L1, R1) \<Rightarrow> (Failed err, L1, R1)
      | (Completed, L1, R1) \<Rightarrow>
          (case execute e RSelect R1 of
             (Inl err, R2) \<Rightarrow> (Failed err, L1, R2)
           | (Inr remoteTodos, R2) \<Rightarrow> (Completed, pullPhase (burn_id e) (clock e) remoteTodos L1, R2)))"

section \<open>The callers' statements (src/src/App.tsx)\<close>

text \<open>
  \<^verbatim>\<open>fetchTodos\<close> (lines 16-19): \<^verbatim>\<open>SELECT * FROM todos WHERE is_deleted = 0 ORDER BY
  created_at DESC\<close>. The query names no second sort key: rows of equal \<^verbatim>\<open>created_at\<close>
  come out in the order of the table scan.
\<close>

definition fetchTodos :: "local_db \<Rightarrow> todo list" where
  "fetchTodos L = sort_key (\<lambda>r. - created_at r) (filter (\<lambda>r. is_deleted r = 0) (rows L))"

text \<open>
  \<^verbatim>\<open>handleAddTodo\<close> (lines 80-93): nothing happens when \<^verbatim>\<open>inputValue.trim()\<close> is empty;
  otherwise \<^verbatim>\<open>INSERT INTO todos (text) VALUES (?)\<close>, every other column taking its
  default (\<^verbatim>\<open>remote_id\<close> NULL, \<^verbatim>\<open>completed\<close>, \<^verbatim>\<open>dirty\<close> and \<^verbatim>\<open>is_deleted\<close> 0,
  \<^verbatim>\<open>created_at\<close> the time \<open>now\<close>). \<^verbatim>\<open>trim\<close> strips the white space and line terminators
  of ECMAScript: TAB, LF, VT, FF, CR, SPACE, NO-BREAK SPACE, U+1680, U+2000 to U+200A,
  U+2028, U+2029, U+202F, U+205F, U+3000 and U+FEFF; its result is empty exactly when every
  code unit of the input is one of them.
\<close>

definition is_space :: "code_unit \<Rightarrow> bool" where
  "is_space c =
     (c \<in> set [0x0009, 0x000A, 0x000B, 0x000C, 0x000D, 0x0020, 0x00A0, 0x1680,
                0x2000, 0x2001, 0x2002, 0x2003, 0x2004, 0x2005, 0x2006, 0x2007, 0x2008,
                0x2009, 0x200A, 0x2028, 0x2029, 0x202F, 0x205F, 0x3000, 0xFEFF])"

definition handleAddTodo :: "int \<Rightarrow> js_string \<Rightarrow> local_db \<Rightarrow> local_db" where
  "handleAddTodo now inputValue L =
     (if list_all is_space inputValue then L
      else
        \<lparr>rows = rows L @
           [\<lparr>todo_id = next_id L, remote_id = None, todo_text = inputValue,
             completed = 0, dirty = 0, is_deleted = 0, created_at = now\<rparr>],
         autoinc = next_id L\<rparr>)"

text \<open>
  \<^verbatim>\<open>handleToggleTodo\<close> (lines 95-106):
  \<^verbatim>\<open>UPDATE todos SET completed = ?, dirty = 1 WHERE id = ?\<close> with \<^verbatim>\<open>currentStatus ? 0 : 1\<close>.
\<close>

definition handleToggleTodo :: "int \<Rightarrow> int \<Rightarrow> local_db \<Rightarrow> local_db" where
  "handleToggleTodo i currentStatus L =
     L\<lparr>rows := map (\<lambda>r. if todo_id r = i
                          then r\<lparr>completed := (if currentStatus \<noteq> 0 then 0 else 1), dirty := 1\<rparr>
                          else r) (rows L)\<rparr>"

text \<open>
  \<^verbatim>\<open>handleDeleteTodo\<close> (lines 108-119):
  \<^verbatim>\<open>UPDATE todos SET is_deleted = 1, dirty = 1 WHERE id = ?\<close>.
\<close>

definition handleDeleteTodo :: "int \<Rightarrow> local_db \<Rightarrow> local_db" where
  "handleDeleteTodo i L =
     L\<lparr>rows := map (\<lambda>r. if todo_id r = i then r\<lparr>is_deleted := 1, dirty := 1\<rparr> else r) (rows L)\<rparr>"

section \<open>Notions used in the proofs\<close>

text \<open>
  What holds between the local table and the rows of \<^verbatim>\<open>localChanges\<close> still to be pushed:
  ids are unique (\<^verbatim>\<open>id\<close> is the primary key), the pending rows are rows of the table, and
  every candidate of the table is pending.
\<close>

definition push_inv :: "local_db \<Rightarrow> todo list \<Rightarrow> bool" where
  "push_inv L cs =
     (distinct (map todo_id (rows L)) \<and> distinct cs \<and> set cs \<subseteq> set (rows L) \<and>
      (\<forall>r \<in> set (rows L). is_candidate r \<longrightarrow> r \<in> set cs))"

text \<open>What the upserts of a whole snapshot do to one local row that is already there.\<close>

definition applySnapshot :: "remote_row list \<Rightarrow> todo \<Rightarrow> todo" where
  "applySnapshot ss r = fold (\<lambda>s r. if remote_id r = Some (rid s) then onConflict s r else r) ss r"

section \<open>Example states\<close>

text \<open>
  An environment whose remote never fails and numbers its rows upwards, a local table
  with one row of every kind (new, tombstoned after a push, edited, clean and gone from
  the remote, clean and changed on the remote, tombstoned before any push), and a remote
  table.
\<close>

definition ex_env :: env where
  "ex_env = \<lparr>fault = (\<lambda>n. None),
             alloc = (\<lambda>rs. fold (\<lambda>x m. max (rid x) m) rs 0 + 1),
             clock = (\<lambda>k. 100 + int k),
             burn_id = False\<rparr>"

definition ex_local :: local_db where
  "ex_local =
     \<lparr>rows =
        [\<lparr>todo_id = 1, remote_id = None, todo_text = ascii ''Buy milk'', completed = 0, dirty = 0,
          is_deleted = 0, created_at = 50\<rparr>,
         \<lparr>todo_id = 2, remote_id = Some 7, todo_text = ascii ''b'', completed = 0, dirty = 1,
          is_deleted = 1, created_at = 50\<rparr>,
         \<lparr>todo_id = 3, remote_id = Some 3, todo_text = ascii ''A'', completed = 1, dirty = 1,
          is_deleted = 0, created_at = 60\<rparr>,
         \<lparr>todo_id = 4, remote_id = Some 4, todo_text = ascii ''old'', completed = 0, dirty = 0,
          is_deleted = 0, created_at = 60\<rparr>,
         \<lparr>todo_id = 5, remote_id = Some 5, todo_text = ascii ''c'', completed = 0, dirty = 0,
          is_deleted = 0, created_at = 70\<rparr>,
         \<lparr>todo_id = 6, remote_id = None, todo_text = ascii ''d'', completed = 0, dirty = 1,
          is_deleted = 1, created_at = 80\<rparr>],
      autoinc = 6\<rparr>"

definition ex_remote :: remote_db where
  "ex_remote =
     \<lparr>r_rows = [\<lparr>rid = 3, rtext = ascii ''B'', rcompleted = 0\<rparr>,
                \<lparr>rid = 5, rtext = ascii ''C'', rcompleted = 1\<rparr>,
                \<lparr>rid = 7, rtext = ascii ''b'', rcompleted = 0\<rparr>,
                \<lparr>rid = 9, rtext = ascii ''z'', rcompleted = 0\<rparr>],
      r_log = []\<rparr>"

text \<open>
  Two environments with a failing remote: in the first the second statement sent fails with
  \<open>RemoteUnavailable\<close> (and the local engine uses up ids), in the second the first statement
  is rejected.
\<close>

definition ex_flaky :: env where
  "ex_flaky = \<lparr>fault = (\<lambda>n. if n = 1 then Some RemoteUnavailable else None),
               alloc = (\<lambda>rs. fold (\<lambda>x m. max (rid x) m) rs 0 + 1),
               clock = (\<lambda>k. 100 + int k),
               burn_id = True\<rparr>"

definition ex_rejecting :: env where
  "ex_rejecting = \<lparr>fault = (\<lambda>n. if n = 0 then Some RemoteRejected else None),
               alloc = (\<lambda>rs. fold (\<lambda>x m. max (rid x) m) rs 0 + 1),
               clock = (\<lambda>k. 100 + int k),
               burn_id = False\<rparr>"

section \<open>The pull phase\<close>

lemma deleteWhereRemoteIdNotIn_rows:
  "rows (deleteWhereRemoteIdNotIn ids L) =
     filter (\<lambda>r. \<not> (case remote_id r of None \<Rightarrow> False | Some n \<Rightarrow> n \<notin> set ids \<and> dirty r = 0)) (rows L)"
  by (cases ids) (auto simp: deleteWhereRemoteIdNotIn_def intro!: filter_cong split: option.splits)

lemma deleteWhereRemoteIdNotIn_autoinc:
  "autoinc (deleteWhereRemoteIdNotIn ids L) = autoinc L"
  by (simp add: deleteWhereRemoteIdNotIn_def)

lemma upsertFromRemote_rows:
  "\<exists>extra. rows (upsertFromRemote b now s L) =
      map (\<lambda>r. if remote_id r = Some (rid s) then onConflict s r else r) (rows L) @ extra \<and>
      (\<forall>x \<in> set extra. remote_id x = Some (rid s) \<and> dirty x = 0 \<and> is_deleted x = 0)"
proof (cases "\<exists>r \<in> set (rows L). remote_id r = Some (rid s)")
  case True
  then show ?thesis by (simp add: upsertFromRemote_def)
next
  case False
  then have "map (\<lambda>r. if remote_id r = Some (rid s) then onConflict s r else r) (rows L) = rows L"
    by (intro map_idI) auto
  with False show ?thesis by (simp add: upsertFromRemote_def)
qed

lemma onConflict_frame:
  "todo_id (onConflict s r) = todo_id r" "remote_id (onConflict s r) = remote_id r"
  "dirty (onConflict s r) = dirty r" "is_deleted (onConflict s r) = is_deleted r"
  "created_at (onConflict s r) = created_at r"
  by (simp_all add: onConflict_def)

lemma onConflict_dirty: "dirty r \<noteq> 0 \<Longrightarrow> onConflict s r = r"
  by (simp add: onConflict_def)

lemma onConflict_clean:
  "dirty r = 0 \<Longrightarrow> onConflict s r = r\<lparr>todo_text := rtext s, completed := rcompleted s\<rparr>"
  by (simp add: onConflict_def)

lemma upsertFromRemote_nth:
  assumes "i < length (rows L)"
  shows "i < length (rows (upsertFromRemote b now s L)) \<and>
         rows (upsertFromRemote b now s L) ! i =
           (if remote_id (rows L ! i) = Some (rid s) then onConflict s (rows L ! i) else rows L ! i)"
proof -
  obtain extra where "rows (upsertFromRemote b now s L) =
      map (\<lambda>r. if remote_id r = Some (rid s) then onConflict s r else r) (rows L) @ extra"
    using upsertFromRemote_rows by blast
  with assms show ?thesis by (simp add: nth_append)
qed

lemma upsertAll_nth_frame:
  "i < length (rows L) \<Longrightarrow>
     i < length (rows (upsertAll b clk k ss L)) \<and>
     todo_id (rows (upsertAll b clk k ss L) ! i) = todo_id (rows L ! i) \<and>
     remote_id (rows (upsertAll b clk k ss L) ! i) = remote_id (rows L ! i) \<and>
     dirty (rows (upsertAll b clk k ss L) ! i) = dirty (rows L ! i) \<and>
     is_deleted (rows (upsertAll b clk k ss L) ! i) = is_deleted (rows L ! i) \<and>
     created_at (rows (upsertAll b clk k ss L) ! i) = created_at (rows L ! i) \<and>
     (dirty (rows L ! i) \<noteq> 0 \<longrightarrow> rows (upsertAll b clk k ss L) ! i = rows L ! i)"
proof (induction ss arbitrary: k L)
  case Nil
  then show ?case by simp
next
  case (Cons s ss)
  let ?M = "upsertFromRemote b (clk k) s L"
  from upsertFromRemote_nth [OF Cons.prems, of b "clk k" s]
  have len: "i < length (rows ?M)"
    and nth: "rows ?M ! i = (if remote_id (rows L ! i) = Some (rid s) then onConflict s (rows L ! i) else rows L ! i)"
    by simp_all
  have fr: "todo_id (rows ?M ! i) = todo_id (rows L ! i)" "remote_id (rows ?M ! i) = remote_id (rows L ! i)"
    "dirty (rows ?M ! i) = dirty (rows L ! i)" "is_deleted (rows ?M ! i) = is_deleted (rows L ! i)"
    "created_at (rows ?M ! i) = created_at (rows L ! i)"
    "dirty (rows L ! i) \<noteq> 0 \<longrightarrow> rows ?M ! i = rows L ! i"
    by (simp_all add: nth onConflict_frame onConflict_dirty)
  from Cons.IH [OF len, of "Suc k"] fr show ?case by simp
qed

lemma upsertFromRemote_keeps_dirty:
  "r \<in> set (rows L) \<Longrightarrow> dirty r \<noteq> 0 \<Longrightarrow> r \<in> set (rows (upsertFromRemote b now s L))"
proof -
  assume a: "r \<in> set (rows L)" "dirty r \<noteq> 0"
  obtain extra where e: "rows (upsertFromRemote b now s L) =
      map (\<lambda>r. if remote_id r = Some (rid s) then onConflict s r else r) (rows L) @ extra"
    using upsertFromRemote_rows by blast
  have "(\<lambda>r. if remote_id r = Some (rid s) then onConflict s r else r) r = r"
    using a(2) by (simp add: onConflict_dirty)
  with a(1) have "r \<in> set (map (\<lambda>r. if remote_id r = Some (rid s) then onConflict s r else r) (rows L))"
    unfolding set_map by (intro image_eqI [where x = r]) simp_all
  with e show ?thesis by simp
qed

lemma upsertAll_keeps_dirty:
  "r \<in> set (rows L) \<Longrightarrow> dirty r \<noteq> 0 \<Longrightarrow> r \<in> set (rows (upsertAll b clk k ss L))"
  by (induction ss arbitrary: k L) (simp_all add: upsertFromRemote_keeps_dirty)

text \<open>Where a row of the table after the upserts comes from.\<close>

lemma upsertFromRemote_origin:
  assumes "x \<in> set (rows (upsertFromRemote b now s L))"
  shows "remote_id x = Some (rid s) \<and> dirty x = 0 \<or>
         (\<exists>r \<in> set (rows L). remote_id r = remote_id x \<and> dirty r = dirty x)"
proof -
  obtain extra where e: "rows (upsertFromRemote b now s L) =
      map (\<lambda>r. if remote_id r = Some (rid s) then onConflict s r else r) (rows L) @ extra"
    and x: "\<forall>x \<in> set extra. remote_id x = Some (rid s) \<and> dirty x = 0 \<and> is_deleted x = 0"
    using upsertFromRemote_rows by blast
  from assms e consider "x \<in> set extra"
    | r where "r \<in> set (rows L)" "x = (if remote_id r = Some (rid s) then onConflict s r else r)"
    by auto
  then show ?thesis
  proof cases
    case 1
    with x show ?thesis by simp
  next
    case 2
    then show ?thesis by (auto simp: onConflict_frame split: if_splits)
  qed
qed

lemma upsertAll_origin:
  "x \<in> set (rows (upsertAll b clk k ss L)) \<Longrightarrow>
     (\<exists>s \<in> set ss. remote_id x = Some (rid s) \<and> dirty x = 0) \<or>
     (\<exists>r \<in> set (rows L). remote_id r = remote_id x \<and> dirty r = dirty x)"
proof (induction ss arbitrary: k L)
  case Nil
  then show ?case by auto
next
  case (Cons s ss)
  from Cons.IH [of "Suc k" "upsertFromRemote b (clk k) s L"] Cons.prems
  consider "\<exists>s \<in> set ss. remote_id x = Some (rid s) \<and> dirty x = 0"
    | r where "r \<in> set (rows (upsertFromRemote b (clk k) s L))" "remote_id r = remote_id x" "dirty r = dirty x"
    by auto
  then show ?case
  proof cases
    case 1
    then show ?thesis by auto
  next
    case 2
    from upsertFromRemote_origin [OF 2(1)] 2(2,3) show ?thesis by auto
  qed
qed

text \<open>
  C2. A local row whose \<^verbatim>\<open>remote_id\<close> is the id of the upserted snapshot row keeps its row
  entirely when its dirty flag is set (the upsert leaves it as it is, and it is still in the
  table after the whole pull phase, whatever the snapshot holds); when \<^verbatim>\<open>dirty = 0\<close> its
  \<^verbatim>\<open>text\<close> and \<^verbatim>\<open>completed\<close> become the snapshot's values.
\<close>

theorem pull_upsert_dirty_wins:
  assumes "i < length (rows L)" and "remote_id (rows L ! i) = Some (rid s)"
  shows "(dirty (rows L ! i) \<noteq> 0 \<longrightarrow>
            rows (upsertFromRemote b now s L) ! i = rows L ! i \<and>
            rows L ! i \<in> set (rows (pullPhase b clk remoteTodos L))) \<and>
         (dirty (rows L ! i) = 0 \<longrightarrow>
            rows (upsertFromRemote b now s L) ! i =
              (rows L ! i)\<lparr>todo_text := rtext s, completed := rcompleted s\<rparr>)"
proof (intro conjI impI)
  assume d: "dirty (rows L ! i) \<noteq> 0"
  show "rows (upsertFromRemote b now s L) ! i = rows L ! i"
    using upsertFromRemote_nth [OF assms(1), of b now s] d by (simp add: onConflict_dirty)
  have m: "rows L ! i \<in> set (rows L)"
    using assms(1) by simp
  have "rows L ! i \<in> set (rows (deleteWhereRemoteIdNotIn (map rid remoteTodos) L))"
    using m d by (simp add: deleteWhereRemoteIdNotIn_rows split: option.splits)
  then show "rows L ! i \<in> set (rows (pullPhase b clk remoteTodos L))"
    unfolding pullPhase_def using d by (rule upsertAll_keeps_dirty)
next
  assume "dirty (rows L ! i) = 0"
  then show "rows (upsertFromRemote b now s L) ! i =
      (rows L ! i)\<lparr>todo_text := rtext s, completed := rcompleted s\<rparr>"
    using upsertFromRemote_nth [OF assms(1), of b now s] assms(2) by (simp add: onConflict_clean)
qed

theorem pull_upsert_dirty_wins_witness:
  "(2::nat) < length (rows ex_local) \<and>
   remote_id (rows ex_local ! 2) = Some (rid \<lparr>rid = 3, rtext = ascii ''B'', rcompleted = 0\<rparr>) \<and>
   dirty (rows ex_local ! 2) = 1 \<and>
   todo_text (rows (upsertFromRemote (burn_id ex_env) 100 \<lparr>rid = 3, rtext = ascii ''B'', rcompleted = 0\<rparr> ex_local) ! 2) = (ascii ''A'') \<and>
   rows ex_local ! 2 \<in> set (rows (pullPhase (burn_id ex_env) (clock ex_env) (r_rows ex_remote) ex_local))"
  using pull_upsert_dirty_wins [of 2 ex_local "\<lparr>rid = 3, rtext = ascii ''B'', rcompleted = 0\<rparr>"
      "burn_id ex_env" 100
      "clock ex_env" "r_rows ex_remote"]
  by (simp add: ex_local_def)

text \<open>The ids after the upserts: those that were there, and new ones above the high-water mark.\<close>

lemma next_id_fresh: "autoinc L < next_id L"
  by (simp add: next_id_def)

lemma upsertFromRemote_autoinc: "autoinc L \<le> autoinc (upsertFromRemote b now s L)"
  using next_id_fresh [of L] by (simp add: upsertFromRemote_def)

lemma upsertFromRemote_ids:
  assumes "x \<in> set (rows (upsertFromRemote b now s L))"
  shows "todo_id x \<in> todo_id ` set (rows L) \<or> autoinc L < todo_id x"
proof (cases "\<exists>r \<in> set (rows L). remote_id r = Some (rid s)")
  case True
  with assms have "x \<in> (\<lambda>r. if remote_id r = Some (rid s) then onConflict s r else r) ` set (rows L)"
    by (simp add: upsertFromRemote_def)
  then obtain r0 where "r0 \<in> set (rows L)"
    and "x = (if remote_id r0 = Some (rid s) then onConflict s r0 else r0)"
    by (rule imageE)
  then have "todo_id x = todo_id r0" and "r0 \<in> set (rows L)"
    by (simp_all add: onConflict_frame)
  then show ?thesis by (metis imageI)
next
  case False
  with assms have "x \<in> set (rows L) \<or> todo_id x = next_id L"
    by (auto simp: upsertFromRemote_def)
  then show ?thesis
  proof
    assume "x \<in> set (rows L)"
    then show ?thesis by (metis imageI)
  next
    assume "todo_id x = next_id L"
    with next_id_fresh [of L] show ?thesis by simp
  qed
qed

lemma upsertAll_ids:
  "x \<in> set (rows (upsertAll b clk k ss L)) \<Longrightarrow>
     todo_id x \<in> todo_id ` set (rows L) \<or> autoinc L < todo_id x"
proof (induction ss arbitrary: k L)
  case Nil
  then show ?case by (metis imageI upsertAll.simps(1))
next
  case (Cons s ss)
  let ?M = "upsertFromRemote b (clk k) s L"
  from Cons.prems have "x \<in> set (rows (upsertAll b clk (Suc k) ss ?M))" by simp
  from Cons.IH [OF this]
  show ?case
  proof
    assume "todo_id x \<in> todo_id ` set (rows ?M)"
    then obtain y where y: "y \<in> set (rows ?M)" and e: "todo_id x = todo_id y"
      by (rule imageE)
    from upsertFromRemote_ids [OF y] e show ?thesis by simp
  next
    assume "autoinc ?M < todo_id x"
    with upsertFromRemote_autoinc [of L b "clk k" s] show ?thesis by simp
  qed
qed

text \<open>
  C3. Take a local row whose non-null \<^verbatim>\<open>remote_id\<close> is not among the ids of the snapshot
  (any list, the empty one included). When \<^verbatim>\<open>dirty = 0\<close> the row is gone after the delete
  step and after the whole pull phase: it is not in the table, no row of the table holds its
  \<^verbatim>\<open>remote_id\<close> (the column is UNIQUE: it was the only row holding it), and no row holds its
  \<^verbatim>\<open>id\<close> (the column is the primary key, and with AUTOINCREMENT no row inserted later takes
  an id at or below the high-water mark). When its dirty flag is set the row is still there,
  unchanged.
\<close>

theorem pull_delete_clean_only:
  assumes "r \<in> set (rows L)" and "remote_id r = Some n" and "n \<notin> set (map rid remoteTodos)"
  shows "(dirty r = 0 \<longrightarrow>
            r \<notin> set (rows (deleteWhereRemoteIdNotIn (map rid remoteTodos) L)) \<and>
            r \<notin> set (rows (pullPhase b clk remoteTodos L)) \<and>
            ((\<forall>x \<in> set (rows L). remote_id x = Some n \<longrightarrow> x = r) \<longrightarrow>
               Some n \<notin> remote_id ` set (rows (deleteWhereRemoteIdNotIn (map rid remoteTodos) L)) \<and>
               Some n \<notin> remote_id ` set (rows (pullPhase b clk remoteTodos L))) \<and>
            ((\<forall>x \<in> set (rows L). todo_id x = todo_id r \<longrightarrow> x = r) \<longrightarrow>
               todo_id r \<notin> todo_id ` set (rows (deleteWhereRemoteIdNotIn (map rid remoteTodos) L)) \<and>
               (todo_id r \<le> autoinc L \<longrightarrow>
                  todo_id r \<notin> todo_id ` set (rows (pullPhase b clk remoteTodos L))))) \<and>
         (dirty r \<noteq> 0 \<longrightarrow>
            r \<in> set (rows (deleteWhereRemoteIdNotIn (map rid remoteTodos) L)) \<and>
            r \<in> set (rows (pullPhase b clk remoteTodos L)))"
proof (intro conjI impI)
  assume c: "dirty r = 0"
  let ?D = "deleteWhereRemoteIdNotIn (map rid remoteTodos) L"
  show d: "r \<notin> set (rows ?D)"
    using assms c by (simp add: deleteWhereRemoteIdNotIn_rows)
  have sub: "set (rows ?D) \<subseteq> set (rows L)"
    by (simp add: deleteWhereRemoteIdNotIn_rows)
  show "r \<notin> set (rows (pullPhase b clk remoteTodos L))"
  proof
    assume "r \<in> set (rows (pullPhase b clk remoteTodos L))"
    then have "(\<exists>s \<in> set remoteTodos. remote_id r = Some (rid s) \<and> dirty r = 0) \<or>
       (\<exists>r0 \<in> set (rows ?D). remote_id r0 = remote_id r \<and> dirty r0 = dirty r)"
      unfolding pullPhase_def by (rule upsertAll_origin)
    then show False
    proof
      assume "\<exists>s \<in> set remoteTodos. remote_id r = Some (rid s) \<and> dirty r = 0"
      with assms(2,3) show False by auto
    next
      assume "\<exists>r0 \<in> set (rows ?D). remote_id r0 = remote_id r \<and> dirty r0 = dirty r"
      then obtain r0 where "r0 \<in> set (rows ?D)" "remote_id r0 = Some n" "dirty r0 = 0"
        using assms(2) c by auto
      with assms(3) show False by (simp add: deleteWhereRemoteIdNotIn_rows)
    qed
  qed
  {
    assume u: "\<forall>x \<in> set (rows L). remote_id x = Some n \<longrightarrow> x = r"
    show dn: "Some n \<notin> remote_id ` set (rows ?D)"
    proof
      assume "Some n \<in> remote_id ` set (rows ?D)"
      then obtain x where x: "x \<in> set (rows ?D)" and "Some n = remote_id x"
        by (rule imageE)
      with sub u have "x = r" by auto
      with x d show False by simp
    qed
    show "Some n \<notin> remote_id ` set (rows (pullPhase b clk remoteTodos L))"
    proof
      assume "Some n \<in> remote_id ` set (rows (pullPhase b clk remoteTodos L))"
      then obtain x where x: "x \<in> set (rows (pullPhase b clk remoteTodos L))"
        and xn: "Some n = remote_id x"
        by (rule imageE)
      from x have "(\<exists>s \<in> set remoteTodos. remote_id x = Some (rid s) \<and> dirty x = 0) \<or>
         (\<exists>r0 \<in> set (rows ?D). remote_id r0 = remote_id x \<and> dirty r0 = dirty x)"
        unfolding pullPhase_def by (rule upsertAll_origin)
      then show False
      proof
        assume "\<exists>s \<in> set remoteTodos. remote_id x = Some (rid s) \<and> dirty x = 0"
        with xn assms(3) show False by auto
      next
        assume "\<exists>r0 \<in> set (rows ?D). remote_id r0 = remote_id x \<and> dirty r0 = dirty x"
        then obtain r0 where "r0 \<in> set (rows ?D)" and "remote_id r0 = Some n"
          using xn by auto
        then have "Some n \<in> remote_id ` set (rows ?D)" by (metis imageI)
        with dn show False by simp
      qed
    qed
  }
  {
    assume p: "\<forall>x \<in> set (rows L). todo_id x = todo_id r \<longrightarrow> x = r"
    show di: "todo_id r \<notin> todo_id ` set (rows ?D)"
    proof
      assume "todo_id r \<in> todo_id ` set (rows ?D)"
      then obtain x where x: "x \<in> set (rows ?D)" and "todo_id r = todo_id x"
        by (rule imageE)
      with sub p have "x = r" by auto
      with x d show False by simp
    qed
    {
      assume h: "todo_id r \<le> autoinc L"
      show "todo_id r \<notin> todo_id ` set (rows (pullPhase b clk remoteTodos L))"
      proof
        assume "todo_id r \<in> todo_id ` set (rows (pullPhase b clk remoteTodos L))"
        then obtain x where x: "x \<in> set (rows (pullPhase b clk remoteTodos L))"
          and e: "todo_id r = todo_id x"
          by (rule imageE)
        from x have "todo_id x \<in> todo_id ` set (rows ?D) \<or> autoinc ?D < todo_id x"
          unfolding pullPhase_def by (rule upsertAll_ids)
        then show False
        proof
          assume "todo_id x \<in> todo_id ` set (rows ?D)"
          with e di show False by simp
        next
          assume "autoinc ?D < todo_id x"
          with e h show False by (simp add: deleteWhereRemoteIdNotIn_autoinc)
        qed
      qed
    }
  }
next
  assume c: "dirty r \<noteq> 0"
  show d: "r \<in> set (rows (deleteWhereRemoteIdNotIn (map rid remoteTodos) L))"
    using assms c by (simp add: deleteWhereRemoteIdNotIn_rows)
  then show "r \<in> set (rows (pullPhase b clk remoteTodos L))"
    unfolding pullPhase_def using c by (rule upsertAll_keeps_dirty)
qed

theorem pull_delete_clean_only_witness:
  "rows ex_local ! 3 \<in> set (rows ex_local) \<and>
   remote_id (rows ex_local ! 3) = Some 4 \<and>
   todo_id (rows ex_local ! 3) = 4 \<and>
   4 \<notin> set (map rid (r_rows ex_remote)) \<and>
   dirty (rows ex_local ! 3) = 0 \<and>
   map remote_id (rows ex_local) = [None, Some 7, Some 3, Some 4, Some 5, None] \<and>
   map todo_id (rows ex_local) = [1, 2, 3, 4, 5, 6] \<and>
   autoinc ex_local = 6 \<and>
   rows ex_local ! 3 \<notin> set (rows (pullPhase (burn_id ex_env) (clock ex_env) (r_rows ex_remote) ex_local)) \<and>
   Some 4 \<notin> set (map remote_id (rows (pullPhase (burn_id ex_env) (clock ex_env) (r_rows ex_remote) ex_local))) \<and>
   4 \<notin> set (map todo_id (rows (pullPhase (burn_id ex_env) (clock ex_env) (r_rows ex_remote) ex_local))) \<and>
   4 \<notin> set (map todo_id (rows (pullPhase (burn_id ex_env) (clock ex_env) [] ex_local))) \<and>
   rows ex_local ! 2 \<in> set (rows (pullPhase (burn_id ex_env) (clock ex_env) [] ex_local))"
proof -
  have m: "rows ex_local ! 3 \<in> set (rows ex_local)" and rid4: "remote_id (rows ex_local ! 3) = Some 4"
    and id4: "todo_id (rows ex_local ! 3) = 4" and clean: "dirty (rows ex_local ! 3) = 0"
    by (simp_all add: ex_local_def)
  have gone: "4 \<notin> set (map rid (r_rows ex_remote))" "4 \<notin> set (map rid [])"
    by (simp_all add: ex_remote_def)
  have u: "\<forall>x \<in> set (rows ex_local). remote_id x = Some 4 \<longrightarrow> x = rows ex_local ! 3"
    by (simp add: ex_local_def)
  have p: "\<forall>x \<in> set (rows ex_local). todo_id x = todo_id (rows ex_local ! 3) \<longrightarrow> x = rows ex_local ! 3"
    by (simp add: ex_local_def)
  have h: "todo_id (rows ex_local ! 3) \<le> autoinc ex_local"
    by (simp add: ex_local_def)
  have lists: "map remote_id (rows ex_local) = [None, Some 7, Some 3, Some 4, Some 5, None]"
    "map todo_id (rows ex_local) = [1, 2, 3, 4, 5, 6]" "autoinc ex_local = 6"
    by (simp_all add: ex_local_def)
  have m2: "rows ex_local ! 2 \<in> set (rows ex_local)" "remote_id (rows ex_local ! 2) = Some 3"
    "dirty (rows ex_local ! 2) \<noteq> 0" "3 \<notin> set (map rid [])"
    by (simp_all add: ex_local_def)
  note A = pull_delete_clean_only [OF m rid4 gone(1), of "burn_id ex_env" "clock ex_env",
      THEN conjunct1, THEN mp, OF clean]
  note B = pull_delete_clean_only [OF m rid4 gone(2), of "burn_id ex_env" "clock ex_env",
      THEN conjunct1, THEN mp, OF clean]
  note C = pull_delete_clean_only [OF m2(1,2,4), of "burn_id ex_env" "clock ex_env",
      THEN conjunct2, THEN mp, OF m2(3)]
  note a1 = A [THEN conjunct2, THEN conjunct1]
  have a2: "Some 4 \<notin> set (map remote_id (rows (pullPhase (burn_id ex_env) (clock ex_env) (r_rows ex_remote) ex_local)))"
    using A [THEN conjunct2, THEN conjunct2, THEN conjunct1, THEN mp, OF u, THEN conjunct2]
    by simp
  have a3: "4 \<notin> set (map todo_id (rows (pullPhase (burn_id ex_env) (clock ex_env) (r_rows ex_remote) ex_local)))"
    using A [THEN conjunct2, THEN conjunct2, THEN conjunct2, THEN mp, OF p, THEN conjunct2, THEN mp, OF h]
      id4 by simp
  have b3: "4 \<notin> set (map todo_id (rows (pullPhase (burn_id ex_env) (clock ex_env) [] ex_local)))"
    using B [THEN conjunct2, THEN conjunct2, THEN conjunct2, THEN mp, OF p, THEN conjunct2, THEN mp, OF h]
      id4 by simp
  note c1 = C [THEN conjunct2]
  from m rid4 id4 gone(1) clean lists a1 a2 a3 b3 c1 show ?thesis
    by (intro conjI)
qed

text \<open>
  C10. Every row that is in the table before the upsert loop is at the same position
  after it, with the same \<^verbatim>\<open>id\<close>, \<^verbatim>\<open>remote_id\<close>, \<^verbatim>\<open>dirty\<close>, \<^verbatim>\<open>is_deleted\<close> and
  \<^verbatim>\<open>created_at\<close>; a row whose dirty flag is set is unchanged altogether. So the loop neither
  clears a tombstone nor sets a dirty flag.
\<close>

theorem pull_upsert_frame:
  assumes "i < length (rows L)"
  shows "i < length (rows (upsertAll b clk k remoteTodos L)) \<and>
     todo_id (rows (upsertAll b clk k remoteTodos L) ! i) = todo_id (rows L ! i) \<and>
     remote_id (rows (upsertAll b clk k remoteTodos L) ! i) = remote_id (rows L ! i) \<and>
     dirty (rows (upsertAll b clk k remoteTodos L) ! i) = dirty (rows L ! i) \<and>
     is_deleted (rows (upsertAll b clk k remoteTodos L) ! i) = is_deleted (rows L ! i) \<and>
     created_at (rows (upsertAll b clk k remoteTodos L) ! i) = created_at (rows L ! i) \<and>
     (dirty (rows L ! i) \<noteq> 0 \<longrightarrow> rows (upsertAll b clk k remoteTodos L) ! i = rows L ! i)"
  using assms by (rule upsertAll_nth_frame)

theorem pull_upsert_frame_witness:
  "(1::nat) < length (rows ex_local) \<and>
   is_deleted (rows (upsertAll (burn_id ex_env) (clock ex_env) 0 (r_rows ex_remote) ex_local) ! 1) = 1 \<and>
   dirty (rows (upsertAll (burn_id ex_env) (clock ex_env) 0 (r_rows ex_remote) ex_local) ! 1) = 1 \<and>
   rows (upsertAll (burn_id ex_env) (clock ex_env) 0 (r_rows ex_remote) ex_local) ! 1 = rows ex_local ! 1"
  using pull_upsert_frame [of 1 ex_local "burn_id ex_env" "clock ex_env" 0 "r_rows ex_remote"]
  by (simp add: ex_local_def)

section \<open>The push phase\<close>

lemma pushAll_append:
  "pushAll e (cs1 @ cs2) L R =
     (case pushAll e cs1 L R of
        (Failed err, L', R') \<Rightarrow> (Failed err, L', R')
      | (Completed, L', R') \<Rightarrow> pushAll e cs2 L' R')"
  by (induction cs1 arbitrary: L R) (simp_all split: prod.splits outcome.splits)

lemma execute_log: "execute e c R = (res, R') \<Longrightarrow> r_log R' = r_log R @ [c]"
  by (auto simp: execute_def split: option.splits prod.splits)

lemma execute_Inr: "execute e c R = (Inr res, R') \<Longrightarrow> fault e (length (r_log R)) = None"
  by (auto simp: execute_def split: option.splits prod.splits)

lemma execute_Inl: "execute e c R = (Inl err, R') \<Longrightarrow> fault e (length (r_log R)) = Some err \<and> r_rows R' = r_rows R"
  by (auto simp: execute_def split: option.splits prod.splits)

lemma pushCandidate_Failed:
  assumes "pushCandidate e t L R = (Failed err, L', R')"
  shows "L' = L \<and> length (r_log R') = Suc (length (r_log R))"
proof -
  have "is_deleted t = 1 \<or> is_deleted t \<noteq> 1 \<and> \<not> truthy (remote_id t) \<or>
        is_deleted t \<noteq> 1 \<and> truthy (remote_id t)"
    by blast
  then show ?thesis
  proof (elim disjE conjE)
    assume "is_deleted t = 1"
    with assms show ?thesis
      by (auto simp: pushCandidate_def split: option.splits if_splits prod.splits sum.splits
          dest: execute_log)
  next
    assume "is_deleted t \<noteq> 1" "\<not> truthy (remote_id t)"
    with assms show ?thesis
      by (auto simp: pushCandidate_def split: prod.splits sum.splits list.splits
          dest: execute_log)
  next
    assume "is_deleted t \<noteq> 1" "truthy (remote_id t)"
    with assms show ?thesis
      by (auto simp: pushCandidate_def truthy_def split: option.splits prod.splits sum.splits
          dest: execute_log)
  qed
qed

lemma applyRemoteAssignment_Inr:
  "applyRemoteAssignment n i L = Inr L' \<Longrightarrow>
     L' = L\<lparr>rows := map (\<lambda>r. if todo_id r = i then r\<lparr>remote_id := Some n, dirty := 0\<rparr> else r) (rows L)\<rparr>"
  by (simp add: applyRemoteAssignment_def split: if_splits)

lemma pushCandidate_Completed:
  assumes "pushCandidate e t L R = (Completed, L', R')"
  shows "(is_deleted t = 1 \<and> L' = eraseLocal (todo_id t) L) \<or>
         (is_deleted t \<noteq> 1 \<and> \<not> truthy (remote_id t) \<and>
            (\<exists>n. L' = L\<lparr>rows := map (\<lambda>r. if todo_id r = todo_id t
                                            then r\<lparr>remote_id := Some n, dirty := 0\<rparr> else r) (rows L)\<rparr>)) \<or>
         (is_deleted t \<noteq> 1 \<and> truthy (remote_id t) \<and> L' = clearDirty (todo_id t) L)"
proof -
  have "is_deleted t = 1 \<or> is_deleted t \<noteq> 1 \<and> \<not> truthy (remote_id t) \<or>
        is_deleted t \<noteq> 1 \<and> truthy (remote_id t)"
    by blast
  then show ?thesis
  proof (elim disjE conjE)
    assume "is_deleted t = 1"
    with assms show ?thesis
      by (auto simp: pushCandidate_def split: option.splits if_splits prod.splits sum.splits)
  next
    assume a: "is_deleted t \<noteq> 1" "\<not> truthy (remote_id t)"
    with assms obtain n where "applyRemoteAssignment n (todo_id t) L = Inr L'"
      by (auto simp: pushCandidate_def split: prod.splits sum.splits list.splits)
    from applyRemoteAssignment_Inr [OF this] a show ?thesis by blast
  next
    assume "is_deleted t \<noteq> 1" "truthy (remote_id t)"
    with assms show ?thesis
      by (auto simp: pushCandidate_def truthy_def split: option.splits prod.splits sum.splits)
  qed
qed




text \<open>
  C5. A row of \<^verbatim>\<open>localChanges\<close> with \<^verbatim>\<open>is_deleted = 1\<close> and a null \<^verbatim>\<open>remote_id\<close> is a push
  candidate, and the loop body deletes every local row with its id and returns the remote
  database as it was, log included: no statement is sent, whatever the environment.
\<close>

theorem tombstone_never_pushed_erased:
  assumes "is_deleted t = 1" and "remote_id t = None"
  shows "is_candidate t \<and>
         pushCandidate e t L R = (Completed, eraseLocal (todo_id t) L, R) \<and>
         (\<forall>r \<in> set (rows (eraseLocal (todo_id t) L)). todo_id r \<noteq> todo_id t)"
  using assms by (simp add: is_candidate_def pushCandidate_def eraseLocal_def)

theorem tombstone_never_pushed_erased_witness:
  "is_deleted (rows ex_local ! 5) = 1 \<and> remote_id (rows ex_local ! 5) = None \<and>
   pushCandidate ex_flaky (rows ex_local ! 5) ex_local ex_remote =
     (Completed, eraseLocal 6 ex_local, ex_remote) \<and>
   map todo_id (rows (eraseLocal 6 ex_local)) = [1, 2, 3, 4, 5]"
  using tombstone_never_pushed_erased [of "rows ex_local ! 5" ex_flaky ex_local ex_remote]
  by (simp add: ex_local_def eraseLocal_def)

text \<open>
  C6, as the code has it. For a row of \<^verbatim>\<open>localChanges\<close> with \<^verbatim>\<open>is_deleted = 1\<close> and a
  \<^verbatim>\<open>remote_id\<close> that is neither null nor 0 the loop body sends the remote DELETE. When the
  statement returns (whether or not the remote held a row of that id), the local rows of that
  id are deleted; when it throws, the round ends with that error and the local table is as
  before.
\<close>

theorem tombstone_pushed_erased_after_delete:
  assumes "is_deleted t = 1" and "remote_id t = Some n" and "n \<noteq> 0"
  shows "(fault e (length (r_log R)) = None \<longrightarrow>
            pushCandidate e t L R =
              (Completed, eraseLocal (todo_id t) L,
               \<lparr>r_rows = filter (\<lambda>x. rid x \<noteq> n) (r_rows R), r_log = r_log R @ [RDelete n]\<rparr>)) \<and>
         (\<forall>err. fault e (length (r_log R)) = Some err \<longrightarrow>
            pushCandidate e t L R = (Failed err, L, R\<lparr>r_log := r_log R @ [RDelete n]\<rparr>))"
  using assms by (simp add: pushCandidate_def execute_def)

theorem tombstone_pushed_erased_after_delete_witness:
  "is_deleted (rows ex_local ! 1) = 1 \<and> remote_id (rows ex_local ! 1) = Some 7 \<and> (7::int) \<noteq> 0 \<and>
   fault ex_flaky (length (r_log ex_remote)) = None \<and>
   pushCandidate ex_flaky (rows ex_local ! 1) ex_local ex_remote =
     (Completed, eraseLocal 2 ex_local,
      \<lparr>r_rows = [\<lparr>rid = 3, rtext = ascii ''B'', rcompleted = 0\<rparr>,
                 \<lparr>rid = 5, rtext = ascii ''C'', rcompleted = 1\<rparr>,
                 \<lparr>rid = 9, rtext = ascii ''z'', rcompleted = 0\<rparr>], r_log = [RDelete 7]\<rparr>)"
  using tombstone_pushed_erased_after_delete [of "rows ex_local ! 1" 7 ex_flaky ex_remote ex_local]
  by (simp add: ex_local_def ex_remote_def ex_flaky_def)

text \<open>
  C6 as stated (the local erase happens whatever the outcome of the remote delete) fails on
  this round: the remote DELETE of the tombstoned row with \<^verbatim>\<open>remote_id = 7\<close> fails with
  \<open>RemoteUnavailable\<close>, the round fails, and the row is still in the local table.
\<close>

theorem tombstone_pushed_counterexample:
  "fst (syncWithRemote ex_flaky ex_local ex_remote) = Failed RemoteUnavailable \<and>
   r_log (snd (snd (syncWithRemote ex_flaky ex_local ex_remote))) = [RInsert (ascii ''Buy milk'') 0, RDelete 7] \<and>
   is_deleted (rows ex_local ! 1) = 1 \<and> remote_id (rows ex_local ! 1) = Some 7 \<and>
   rows ex_local ! 1 \<in> set (listSyncCandidates ex_local) \<and>
   rows ex_local ! 1 \<in> set (rows (fst (snd (syncWithRemote ex_flaky ex_local ex_remote))))"
  by code_simp

text \<open>
  C4, as the code has it. The first candidate whose push throws ends the round: the result
  of \<^verbatim>\<open>syncWithRemote\<close> is that failure, with the local table as the candidates before it
  left it and a remote log that ends with the statement that failed. The candidates after it
  are not attempted and no snapshot is fetched.
\<close>

theorem push_failure_aborts_round:
  assumes "listSyncCandidates L = cs1 @ t # cs2"
    and "pushAll e cs1 L R = (Completed, L1, R1)"
    and "pushCandidate e t L1 R1 = (Failed err, L2, R2)"
  shows "syncWithRemote e L R = (Failed err, L1, R2) \<and> L2 = L1 \<and>
         length (r_log R2) = Suc (length (r_log R1))"
proof -
  from pushCandidate_Failed [OF assms(3)]
  have l: "L2 = L1" and n: "length (r_log R2) = Suc (length (r_log R1))"
    by simp_all
  have "pushAll e (t # cs2) L1 R1 = (Failed err, L1, R2)"
    using assms(3) l by simp
  then have "pushAll e (cs1 @ t # cs2) L R = (Failed err, L1, R2)"
    using assms(2) by (simp add: pushAll_append)
  then have "syncWithRemote e L R = (Failed err, L1, R2)"
    using assms(1) by (simp add: syncWithRemote_def)
  with l n show ?thesis by simp
qed

theorem push_failure_aborts_round_witness:
  "listSyncCandidates ex_local = [rows ex_local ! 0] @ rows ex_local ! 1 # [rows ex_local ! 2, rows ex_local ! 5] \<and>
   pushAll ex_flaky [rows ex_local ! 0] ex_local ex_remote =
     (Completed, fst (snd (pushAll ex_flaky [rows ex_local ! 0] ex_local ex_remote)),
      snd (snd (pushAll ex_flaky [rows ex_local ! 0] ex_local ex_remote))) \<and>
   syncWithRemote ex_flaky ex_local ex_remote =
     (Failed RemoteUnavailable,
      fst (snd (pushAll ex_flaky [rows ex_local ! 0] ex_local ex_remote)),
      \<lparr>r_rows = r_rows ex_remote @ [\<lparr>rid = 10, rtext = ascii ''Buy milk'', rcompleted = 0\<rparr>],
       r_log = [RInsert (ascii ''Buy milk'') 0, RDelete 7]\<rparr>)"
proof -
  have a: "listSyncCandidates ex_local =
      [rows ex_local ! 0] @ rows ex_local ! 1 # [rows ex_local ! 2, rows ex_local ! 5]"
    by code_simp
  have b: "pushAll ex_flaky [rows ex_local ! 0] ex_local ex_remote =
     (Completed, fst (snd (pushAll ex_flaky [rows ex_local ! 0] ex_local ex_remote)),
      snd (snd (pushAll ex_flaky [rows ex_local ! 0] ex_local ex_remote)))"
    by code_simp
  have c: "pushCandidate ex_flaky (rows ex_local ! 1)
       (fst (snd (pushAll ex_flaky [rows ex_local ! 0] ex_local ex_remote)))
       (snd (snd (pushAll ex_flaky [rows ex_local ! 0] ex_local ex_remote))) =
     (Failed RemoteUnavailable,
      fst (snd (pushAll ex_flaky [rows ex_local ! 0] ex_local ex_remote)),
      \<lparr>r_rows = r_rows ex_remote @ [\<lparr>rid = 10, rtext = ascii ''Buy milk'', rcompleted = 0\<rparr>],
       r_log = [RInsert (ascii ''Buy milk'') 0, RDelete 7]\<rparr>)"
    by code_simp
  from push_failure_aborts_round [OF a b c] a b show ?thesis by simp
qed

text \<open>
  C4 as stated (a failing candidate does not abort the round) fails on this round: the
  INSERT of the first of four candidates is rejected, the round fails with that error, the
  local table is untouched, and the rejected INSERT is the only statement ever sent: the
  other three candidates are not attempted and no snapshot is fetched.
\<close>

theorem push_failure_counterexample:
  "length (listSyncCandidates ex_local) = 4 \<and>
   fst (syncWithRemote ex_rejecting ex_local ex_remote) = Failed RemoteRejected \<and>
   fst (snd (syncWithRemote ex_rejecting ex_local ex_remote)) = ex_local \<and>
   r_log (snd (snd (syncWithRemote ex_rejecting ex_local ex_remote))) = [RInsert (ascii ''Buy milk'') 0]"
  by code_simp

section \<open>Local mutations and the read view\<close>

lemma handleToggleTodo_dirty:
  assumes m: "r \<in> set (rows (handleToggleTodo i c L))" and e: "todo_id r = i"
  shows "dirty r = 1"
proof -
  from m have "r \<in> (\<lambda>r. if todo_id r = i then r\<lparr>completed := (if c \<noteq> 0 then 0 else 1), dirty := 1\<rparr>
                       else r) ` set (rows L)"
    by (simp add: handleToggleTodo_def)
  then obtain r0 where
    r: "r = (if todo_id r0 = i then r0\<lparr>completed := (if c \<noteq> 0 then 0 else 1), dirty := 1\<rparr> else r0)"
    by (rule imageE)
  show ?thesis
  proof (cases "todo_id r0 = i")
    case True
    with r show ?thesis by simp
  next
    case False
    with r e show ?thesis by simp
  qed
qed

lemma handleDeleteTodo_dirty:
  assumes m: "r \<in> set (rows (handleDeleteTodo i L))" and e: "todo_id r = i"
  shows "dirty r = 1 \<and> is_deleted r = 1"
proof -
  from m have "r \<in> (\<lambda>r. if todo_id r = i then r\<lparr>is_deleted := 1, dirty := 1\<rparr> else r) ` set (rows L)"
    by (simp add: handleDeleteTodo_def)
  then obtain r0 where
    r: "r = (if todo_id r0 = i then r0\<lparr>is_deleted := 1, dirty := 1\<rparr> else r0)"
    by (rule imageE)
  show ?thesis
  proof (cases "todo_id r0 = i")
    case True
    with r show ?thesis by simp
  next
    case False
    with r e show ?thesis by simp
  qed
qed

lemma handleToggleTodo_ids: "map todo_id (rows (handleToggleTodo i c L)) = map todo_id (rows L)"
  by (simp add: handleToggleTodo_def)

lemma handleDeleteTodo_ids: "map todo_id (rows (handleDeleteTodo i L)) = map todo_id (rows L)"
  by (simp add: handleDeleteTodo_def)

text \<open>
  C7, as the code has it. \<^verbatim>\<open>handleAddTodo\<close> on a blank input changes nothing; otherwise it
  appends a row with \<^verbatim>\<open>remote_id\<close> null and \<^verbatim>\<open>dirty = 0\<close> (the column default), which is
  a push candidate through its null \<^verbatim>\<open>remote_id\<close>. \<^verbatim>\<open>handleToggleTodo\<close> and
  \<^verbatim>\<open>handleDeleteTodo\<close> set \<^verbatim>\<open>dirty = 1\<close> on the rows of the given id and keep every row of
  the table in its place.
\<close>

theorem local_mutations:
  "(list_all is_space v \<longrightarrow> handleAddTodo now v L = L) \<and>
   (\<not> list_all is_space v \<longrightarrow>
      rows (handleAddTodo now v L) =
        rows L @ [\<lparr>todo_id = next_id L, remote_id = None, todo_text = v, completed = 0,
                   dirty = 0, is_deleted = 0, created_at = now\<rparr>] \<and>
      last (rows (handleAddTodo now v L)) \<in> set (listSyncCandidates (handleAddTodo now v L))) \<and>
   (\<forall>r \<in> set (rows (handleToggleTodo i c L)). todo_id r = i \<longrightarrow> dirty r = 1) \<and>
   (\<forall>r \<in> set (rows (handleDeleteTodo i L)). todo_id r = i \<longrightarrow> dirty r = 1) \<and>
   map todo_id (rows (handleToggleTodo i c L)) = map todo_id (rows L) \<and>
   map todo_id (rows (handleDeleteTodo i L)) = map todo_id (rows L)"
proof (intro conjI impI ballI)
  assume "list_all is_space v"
  then show "handleAddTodo now v L = L"
    by (simp add: handleAddTodo_def)
next
  assume "\<not> list_all is_space v"
  then show "rows (handleAddTodo now v L) =
      rows L @ [\<lparr>todo_id = next_id L, remote_id = None, todo_text = v, completed = 0,
                 dirty = 0, is_deleted = 0, created_at = now\<rparr>]"
    by (simp add: handleAddTodo_def)
  then show "last (rows (handleAddTodo now v L)) \<in> set (listSyncCandidates (handleAddTodo now v L))"
    by (simp add: listSyncCandidates_def is_candidate_def)
next
  fix r
  assume "r \<in> set (rows (handleToggleTodo i c L))" and "todo_id r = i"
  then show "dirty r = 1"
    by (rule handleToggleTodo_dirty)
next
  fix r
  assume "r \<in> set (rows (handleDeleteTodo i L))" and "todo_id r = i"
  then show "dirty r = 1"
    by (rule handleDeleteTodo_dirty [THEN conjunct1])
next
  show "map todo_id (rows (handleToggleTodo i c L)) = map todo_id (rows L)"
    by (rule handleToggleTodo_ids)
next
  show "map todo_id (rows (handleDeleteTodo i L)) = map todo_id (rows L)"
    by (rule handleDeleteTodo_ids)
qed

theorem local_mutations_witness:
  "list_all is_space [0x00A0, 0x3000] \<and>
   handleAddTodo 90 [0x00A0, 0x3000] ex_local = ex_local \<and>
   \<not> list_all is_space (ascii ''Buy milk'') \<and>
   rows (handleAddTodo 90 (ascii ''Buy milk'') ex_local) =
     rows ex_local @ [\<lparr>todo_id = next_id ex_local, remote_id = None, todo_text = ascii ''Buy milk'',
                       completed = 0, dirty = 0, is_deleted = 0, created_at = 90\<rparr>] \<and>
   last (rows (handleAddTodo 90 (ascii ''Buy milk'') ex_local))
     \<in> set (listSyncCandidates (handleAddTodo 90 (ascii ''Buy milk'') ex_local)) \<and>
   rows (handleToggleTodo 5 0 ex_local) ! 4 \<in> set (rows (handleToggleTodo 5 0 ex_local)) \<and>
   todo_id (rows (handleToggleTodo 5 0 ex_local) ! 4) = 5 \<and>
   dirty (rows (handleToggleTodo 5 0 ex_local) ! 4) = 1"
proof -
  have blank: "\<not> list_all is_space (ascii ''Buy milk'')"
    by (simp add: is_space_def ascii_def)
  have mem: "rows (handleToggleTodo 5 0 ex_local) ! 4 \<in> set (rows (handleToggleTodo 5 0 ex_local))"
    by (simp add: handleToggleTodo_def ex_local_def)
  have id5: "todo_id (rows (handleToggleTodo 5 0 ex_local) ! 4) = 5"
    by (simp add: handleToggleTodo_def ex_local_def)
  have blank2: "list_all is_space [0x00A0, 0x3000]"
    by (simp add: is_space_def)
  note same = mp [OF local_mutations [of "[0x00A0, 0x3000]" 90 ex_local 5 0, THEN conjunct1] blank2]
  note T = local_mutations [of "ascii ''Buy milk''" 90 ex_local 5 0]
  note add = mp [OF T [THEN conjunct2, THEN conjunct1] blank]
  note tog = mp [OF bspec [OF T [THEN conjunct2, THEN conjunct2, THEN conjunct1] mem] id5]
  show ?thesis
    by (intro conjI) (rule blank2 same blank add [THEN conjunct1] add [THEN conjunct2] mem id5 tog)+
qed

text \<open>
  C7 as stated (a created record starts with its dirty flag set) fails on this call: the row
  that \<^verbatim>\<open>handleAddTodo\<close> appends has \<^verbatim>\<open>dirty = 0\<close>.
\<close>

theorem create_dirty_counterexample:
  "dirty (last (rows (handleAddTodo 90 (ascii ''Buy milk'') ex_local))) = 0 \<and>
   dirty (last (rows (handleAddTodo 90 (ascii ''Buy milk'') ex_local))) \<noteq> 1 \<and>
   todo_text (last (rows (handleAddTodo 90 (ascii ''Buy milk'') ex_local))) = (ascii ''Buy milk'') \<and>
   length (rows (handleAddTodo 90 (ascii ''Buy milk'') ex_local)) = Suc (length (rows ex_local))"
  by code_simp

text \<open>
  C8, as the code has it. \<^verbatim>\<open>fetchTodos\<close> returns exactly the rows with \<^verbatim>\<open>is_deleted = 0\<close>,
  in descending order of \<^verbatim>\<open>created_at\<close>; rows of equal \<^verbatim>\<open>created_at\<close> keep the order they
  have in the table.
\<close>

theorem fetchTodos_order:
  "mset (fetchTodos L) = mset (filter (\<lambda>r. is_deleted r = 0) (rows L)) \<and>
   sorted_wrt (\<lambda>a b. created_at a \<ge> created_at b) (fetchTodos L) \<and>
   filter (\<lambda>r. created_at r = t) (fetchTodos L) =
     filter (\<lambda>r. created_at r = t) (filter (\<lambda>r. is_deleted r = 0) (rows L))"
proof (intro conjI)
  show "mset (fetchTodos L) = mset (filter (\<lambda>r. is_deleted r = 0) (rows L))"
    by (simp add: fetchTodos_def)
  have "sorted (map (\<lambda>r. - created_at r) (fetchTodos L))"
    unfolding fetchTodos_def by (rule sorted_sort_key)
  then show "sorted_wrt (\<lambda>a b. created_at a \<ge> created_at b) (fetchTodos L)"
    by (simp add: sorted_wrt_map)
  have "filter (\<lambda>r. - created_at r = - t) (fetchTodos L) =
     filter (\<lambda>r. - created_at r = - t) (filter (\<lambda>r. is_deleted r = 0) (rows L))"
    unfolding fetchTodos_def by (rule sort_key_stable)
  then show "filter (\<lambda>r. created_at r = t) (fetchTodos L) =
     filter (\<lambda>r. created_at r = t) (filter (\<lambda>r. is_deleted r = 0) (rows L))"
    by simp
qed

text \<open>
  C8 as stated (ties broken by descending local id) fails on this table: the rows with ids
  3 and 4 have the same \<^verbatim>\<open>created_at\<close> and come out with id 3 first.
\<close>

theorem fetchTodos_ties_counterexample:
  "map todo_id (fetchTodos ex_local) = [5, 3, 4, 1] \<and>
   map created_at (fetchTodos ex_local) = [70, 60, 60, 50] \<and>
   created_at (fetchTodos ex_local ! 1) = created_at (fetchTodos ex_local ! 2) \<and>
   todo_id (fetchTodos ex_local ! 1) < todo_id (fetchTodos ex_local ! 2)"
  by code_simp

section \<open>Tombstones\<close>



section \<open>Idempotence of a round\<close>

subsection \<open>After the push loop no row is a candidate\<close>

lemma push_inv_init:
  assumes "distinct (map todo_id (rows L))"
  shows "push_inv L (listSyncCandidates L)"
proof -
  from assms have "distinct (rows L)" by (simp add: distinct_map)
  then show ?thesis
    using assms by (simp add: push_inv_def listSyncCandidates_def)
qed

lemma same_id_same_row:
  assumes "distinct (map todo_id xs)" and "a \<in> set xs" and "b \<in> set xs" and "todo_id a = todo_id b"
  shows "a = b"
proof -
  from assms(1) have "inj_on todo_id (set xs)" by (simp add: distinct_map)
  from inj_onD [OF this assms(4,2,3)] show ?thesis .
qed

text \<open>A step that erases the rows of the candidate's id.\<close>

lemma push_inv_erase:
  assumes inv: "push_inv L (t # cs)"
  shows "push_inv (eraseLocal (todo_id t) L) cs"
proof -
  from inv have d: "distinct (map todo_id (rows L))" and dc: "distinct (t # cs)"
    and sub: "set (t # cs) \<subseteq> set (rows L)"
    and cand: "\<forall>r \<in> set (rows L). is_candidate r \<longrightarrow> r \<in> set (t # cs)"
    by (simp_all add: push_inv_def)
  have 1: "distinct (map todo_id (rows (eraseLocal (todo_id t) L)))"
    using d by (simp add: eraseLocal_def distinct_map_filter)
  have 2: "set cs \<subseteq> set (rows (eraseLocal (todo_id t) L))"
  proof
    fix c
    assume c: "c \<in> set cs"
    with dc have "c \<noteq> t" by auto
    moreover from c sub have "c \<in> set (rows L)" "t \<in> set (rows L)" by auto
    ultimately have "todo_id c \<noteq> todo_id t"
      using same_id_same_row [OF d] by blast
    with \<open>c \<in> set (rows L)\<close> show "c \<in> set (rows (eraseLocal (todo_id t) L))"
      by (simp add: eraseLocal_def)
  qed
  have 3: "\<forall>r \<in> set (rows (eraseLocal (todo_id t) L)). is_candidate r \<longrightarrow> r \<in> set cs"
  proof (intro ballI impI)
    fix r
    assume r: "r \<in> set (rows (eraseLocal (todo_id t) L))" and c: "is_candidate r"
    from r have "r \<in> set (rows L)" and "todo_id r \<noteq> todo_id t"
      by (simp_all add: eraseLocal_def)
    with c cand show "r \<in> set cs" by auto
  qed
  from 1 2 3 dc show ?thesis by (simp add: push_inv_def)
qed

text \<open>A step that rewrites the rows of the candidate's id and leaves them no candidates.\<close>

lemma push_inv_rewrite:
  assumes inv: "push_inv L (t # cs)"
    and L': "rows L' = map (\<lambda>r. if todo_id r = todo_id t then g r else r) (rows L)"
    and gid: "\<And>r. todo_id (g r) = todo_id r"
    and gt: "\<not> is_candidate (g t)"
  shows "push_inv L' cs"
proof -
  from inv have d: "distinct (map todo_id (rows L))" and dc: "distinct (t # cs)"
    and sub: "set (t # cs) \<subseteq> set (rows L)"
    and cand: "\<forall>r \<in> set (rows L). is_candidate r \<longrightarrow> r \<in> set (t # cs)"
    by (simp_all add: push_inv_def)
  have "map todo_id (rows L') = map todo_id (rows L)"
    unfolding L' by (simp add: gid)
  with d have 1: "distinct (map todo_id (rows L'))" by simp
  have 2: "set cs \<subseteq> set (rows L')"
  proof
    fix c
    assume c: "c \<in> set cs"
    with dc have "c \<noteq> t" by auto
    moreover from c sub have cl: "c \<in> set (rows L)" and "t \<in> set (rows L)" by auto
    ultimately have "todo_id c \<noteq> todo_id t"
      using same_id_same_row [OF d] by blast
    then have "(\<lambda>r. if todo_id r = todo_id t then g r else r) c = c" by simp
    with cl show "c \<in> set (rows L')"
      unfolding L' set_map by (intro image_eqI [where x = c]) simp_all
  qed
  have 3: "\<forall>r \<in> set (rows L'). is_candidate r \<longrightarrow> r \<in> set cs"
  proof (intro ballI impI)
    fix r
    assume "r \<in> set (rows L')" and c: "is_candidate r"
    then have "r \<in> (\<lambda>r. if todo_id r = todo_id t then g r else r) ` set (rows L)"
      by (simp add: L')
    then obtain r0 where r0: "r0 \<in> set (rows L)"
      and r: "r = (if todo_id r0 = todo_id t then g r0 else r0)"
      by (rule imageE)
    show "r \<in> set cs"
    proof (cases "todo_id r0 = todo_id t")
      case True
      from sub have "t \<in> set (rows L)" by simp
      from same_id_same_row [OF d r0 this True] have "r0 = t" .
      with r True gt c show ?thesis by simp
    next
      case False
      with r have "r = r0" by simp
      with c r0 cand have "r \<in> set (t # cs)" by blast
      with False \<open>r = r0\<close> show ?thesis by auto
    qed
  qed
  from 1 2 3 dc show ?thesis by (simp add: push_inv_def)
qed

lemma push_inv_step:
  assumes inv: "push_inv L (t # cs)" and p: "pushCandidate e t L R = (Completed, L', R')"
  shows "push_inv L' cs"
  using pushCandidate_Completed [OF p]
proof (elim disjE conjE exE)
  assume "L' = eraseLocal (todo_id t) L"
  with push_inv_erase [OF inv] show ?thesis by simp
next
  fix n
  assume "L' = L\<lparr>rows := map (\<lambda>r. if todo_id r = todo_id t
                                 then r\<lparr>remote_id := Some n, dirty := 0\<rparr> else r) (rows L)\<rparr>"
  then have "rows L' = map (\<lambda>r. if todo_id r = todo_id t
                                 then (\<lambda>r. r\<lparr>remote_id := Some n, dirty := 0\<rparr>) r else r) (rows L)"
    by simp
  from inv this show ?thesis
    by (rule push_inv_rewrite) (simp_all add: is_candidate_def)
next
  assume tr: "truthy (remote_id t)" and "L' = clearDirty (todo_id t) L"
  then have "rows L' = map (\<lambda>r. if todo_id r = todo_id t then (\<lambda>r. r\<lparr>dirty := 0\<rparr>) r else r) (rows L)"
    by (simp add: clearDirty_def)
  from inv this show ?thesis
  proof (rule push_inv_rewrite)
    show "\<not> is_candidate (t\<lparr>dirty := 0\<rparr>)"
      using tr by (simp add: is_candidate_def truthy_def split: option.splits)
  qed simp
qed

lemma pushAll_no_candidates:
  "push_inv L cs \<Longrightarrow> pushAll e cs L R = (Completed, L', R') \<Longrightarrow>
     \<forall>r \<in> set (rows L'). \<not> is_candidate r"
proof (induction cs arbitrary: L R)
  case Nil
  then show ?case by (auto simp: push_inv_def)
next
  case (Cons t cs)
  obtain o1 L1 R1 where p: "pushCandidate e t L R = (o1, L1, R1)"
    by (metis prod_cases3)
  have o1: "o1 = Completed"
    using Cons.prems(2) p by (cases o1) simp_all
  with Cons.prems(2) p have rest: "pushAll e cs L1 R1 = (Completed, L', R')" by simp
  from push_inv_step [OF Cons.prems(1) p [unfolded o1]] have "push_inv L1 cs" .
  from Cons.IH [OF this rest] show ?case .
qed

subsection \<open>The pull phase repeated on the same snapshot\<close>

lemma upsertFromRemote_no_candidates:
  assumes "\<forall>r \<in> set (rows L). \<not> is_candidate r"
  shows "\<forall>r \<in> set (rows (upsertFromRemote b now s L)). \<not> is_candidate r"
proof
  fix x
  assume "x \<in> set (rows (upsertFromRemote b now s L))"
  from upsertFromRemote_origin [OF this]
  show "\<not> is_candidate x"
  proof
    assume "remote_id x = Some (rid s) \<and> dirty x = 0"
    then show ?thesis by (simp add: is_candidate_def)
  next
    assume "\<exists>r \<in> set (rows L). remote_id r = remote_id x \<and> dirty r = dirty x"
    then obtain r where "r \<in> set (rows L)" and e: "remote_id r = remote_id x" "dirty r = dirty x"
      by blast
    with assms have "\<not> is_candidate r" by blast
    with e show ?thesis by (simp add: is_candidate_def)
  qed
qed

lemma upsertAll_no_candidates:
  "\<forall>r \<in> set (rows L). \<not> is_candidate r \<Longrightarrow>
     \<forall>r \<in> set (rows (upsertAll b clk k ss L)). \<not> is_candidate r"
proof (induction ss arbitrary: k L)
  case Nil
  then show ?case by simp
next
  case (Cons s ss)
  from upsertFromRemote_no_candidates [OF Cons.prems]
  have "\<forall>r \<in> set (rows (upsertFromRemote b (clk k) s L)). \<not> is_candidate r" .
  from Cons.IH [OF this] show ?case by simp
qed

lemma pullPhase_no_candidates:
  assumes "\<forall>r \<in> set (rows L). \<not> is_candidate r"
  shows "\<forall>r \<in> set (rows (pullPhase b clk ss L)). \<not> is_candidate r"
proof -
  have "\<forall>r \<in> set (rows (deleteWhereRemoteIdNotIn (map rid ss) L)). \<not> is_candidate r"
    using assms by (simp add: deleteWhereRemoteIdNotIn_rows)
  then show ?thesis unfolding pullPhase_def by (rule upsertAll_no_candidates)
qed

text \<open>The pull phase leaves no row that its own DELETE would remove.\<close>

lemma pullPhase_nothing_stale:
  assumes "x \<in> set (rows (pullPhase b clk ss L))"
  shows "\<not> (case remote_id x of None \<Rightarrow> False | Some n \<Rightarrow> n \<notin> set (map rid ss) \<and> dirty x = 0)"
proof -
  from assms have "(\<exists>s \<in> set ss. remote_id x = Some (rid s) \<and> dirty x = 0) \<or>
     (\<exists>r \<in> set (rows (deleteWhereRemoteIdNotIn (map rid ss) L)).
         remote_id r = remote_id x \<and> dirty r = dirty x)"
    unfolding pullPhase_def by (rule upsertAll_origin)
  then show ?thesis
  proof
    assume "\<exists>s \<in> set ss. remote_id x = Some (rid s) \<and> dirty x = 0"
    then show ?thesis by auto
  next
    assume "\<exists>r \<in> set (rows (deleteWhereRemoteIdNotIn (map rid ss) L)).
         remote_id r = remote_id x \<and> dirty r = dirty x"
    then obtain r where "r \<in> set (rows (deleteWhereRemoteIdNotIn (map rid ss) L))"
      and "remote_id r = remote_id x" and "dirty r = dirty x"
      by blast
    then show ?thesis
      by (simp add: deleteWhereRemoteIdNotIn_rows split: option.splits)
  qed
qed

lemma delete_after_pull:
  "deleteWhereRemoteIdNotIn (map rid ss) (pullPhase b clk ss L) = pullPhase b clk ss L"
proof -
  have "filter (\<lambda>r. \<not> (case remote_id r of None \<Rightarrow> False
                        | Some n \<Rightarrow> n \<notin> set (map rid ss) \<and> dirty r = 0))
          (rows (pullPhase b clk ss L)) = rows (pullPhase b clk ss L)"
    using pullPhase_nothing_stale [of _ b clk ss L] by (intro filter_True) blast
  then have "rows (deleteWhereRemoteIdNotIn (map rid ss) (pullPhase b clk ss L)) = rows (pullPhase b clk ss L)"
    by (simp add: deleteWhereRemoteIdNotIn_rows)
  moreover have "autoinc (deleteWhereRemoteIdNotIn (map rid ss) (pullPhase b clk ss L)) = autoinc (pullPhase b clk ss L)"
    by (rule deleteWhereRemoteIdNotIn_autoinc)
  ultimately show ?thesis by simp
qed

text \<open>After the upserts every id of the snapshot is held by a local row.\<close>

lemma upsertFromRemote_remote_ids:
  "remote_id ` set (rows (upsertFromRemote b now s L)) = insert (Some (rid s)) (remote_id ` set (rows L))"
proof (cases "\<exists>r \<in> set (rows L). remote_id r = Some (rid s)")
  case True
  have "map remote_id (rows (upsertFromRemote b now s L)) = map remote_id (rows L)"
    using True by (simp add: upsertFromRemote_def onConflict_frame)
  then have "set (map remote_id (rows (upsertFromRemote b now s L))) = set (map remote_id (rows L))"
    by simp
  then have "remote_id ` set (rows (upsertFromRemote b now s L)) = remote_id ` set (rows L)"
    by (simp only: set_map)
  moreover from True have "Some (rid s) \<in> remote_id ` set (rows L)"
    by (metis imageI)
  ultimately show ?thesis by blast
next
  case False
  then show ?thesis by (simp add: upsertFromRemote_def)
qed

lemma upsertAll_remote_ids:
  "remote_id ` set (rows (upsertAll b clk k ss L)) = Some ` rid ` set ss \<union> remote_id ` set (rows L)"
proof (induction ss arbitrary: k L)
  case Nil
  then show ?case by simp
next
  case (Cons s ss)
  have "remote_id ` set (rows (upsertAll b clk k (s # ss) L)) =
        Some ` rid ` set ss \<union> insert (Some (rid s)) (remote_id ` set (rows L))"
    by (simp add: Cons.IH upsertFromRemote_remote_ids)
  then show ?case by simp
qed

lemma applySnapshot_Nil: "applySnapshot [] r = r"
  by (simp add: applySnapshot_def)

lemma applySnapshot_Cons:
  "applySnapshot (s # ss) r =
     applySnapshot ss (if remote_id r = Some (rid s) then onConflict s r else r)"
  by (simp add: applySnapshot_def)

lemma applySnapshot_snoc:
  "applySnapshot (ss @ [s]) r =
     (if remote_id (applySnapshot ss r) = Some (rid s) then onConflict s (applySnapshot ss r)
      else applySnapshot ss r)"
  by (simp add: applySnapshot_def)

lemma applySnapshot_dirty: "dirty r \<noteq> 0 \<Longrightarrow> applySnapshot ss r = r"
  by (induction ss) (simp_all add: applySnapshot_Nil applySnapshot_Cons onConflict_dirty)

lemma applySnapshot_shape:
  "\<exists>a b. applySnapshot ss r = r\<lparr>todo_text := a, completed := b\<rparr>"
proof (induction ss arbitrary: r)
  case Nil
  have "r = r\<lparr>todo_text := todo_text r, completed := completed r\<rparr>" by simp
  then show ?case unfolding applySnapshot_Nil by blast
next
  case (Cons s ss)
  let ?r1 = "if remote_id r = Some (rid s) then onConflict s r else r"
  from Cons.IH [of ?r1] obtain a b where
    "applySnapshot ss ?r1 = ?r1\<lparr>todo_text := a, completed := b\<rparr>" by blast
  then have "applySnapshot (s # ss) r = r\<lparr>todo_text := a, completed := b\<rparr>"
    by (simp add: applySnapshot_Cons onConflict_def)
  then show ?case by blast
qed

lemma applySnapshot_remote_id: "remote_id (applySnapshot ss r) = remote_id r"
  using applySnapshot_shape [of ss r] by (elim exE) simp

text \<open>The update of a snapshot row absorbs every earlier update of the same local row.\<close>

lemma onConflict_absorbs:
  "onConflict s (applySnapshot ss (onConflict s y)) = onConflict s y"
proof (cases "dirty y = 0")
  case True
  obtain a b where "applySnapshot ss (onConflict s y) = (onConflict s y)\<lparr>todo_text := a, completed := b\<rparr>"
    using applySnapshot_shape by blast
  with True show ?thesis by (simp add: onConflict_def)
next
  case False
  then show ?thesis by (simp add: onConflict_dirty applySnapshot_dirty)
qed

lemma upsertAll_snoc:
  "upsertAll b clk k (ss @ [s]) L = upsertFromRemote b (clk (k + length ss)) s (upsertAll b clk k ss L)"
  by (induction ss arbitrary: k L) simp_all

text \<open>Every row of the table after the upserts is a fixed point of the snapshot's updates.\<close>

lemma upsertAll_stable:
  "\<forall>x \<in> set (rows (upsertAll b clk k ss L)). applySnapshot ss x = x"
proof (induction ss rule: rev_induct)
  case Nil
  show ?case by (simp add: applySnapshot_Nil)
next
  case (snoc s ss)
  let ?U = "upsertAll b clk k ss L"
  let ?now = "clk (k + length ss)"
  show ?case
  proof
    fix x
    assume "x \<in> set (rows (upsertAll b clk k (ss @ [s]) L))"
    then have x: "x \<in> set (rows (upsertFromRemote b ?now s ?U))"
      by (simp add: upsertAll_snoc)
    have goal: "applySnapshot (ss @ [s]) x = x"
      if y: "x = onConflict s y" "remote_id y = Some (rid s)" for y
    proof -
      have "remote_id (applySnapshot ss x) = Some (rid s)"
        using y by (simp add: applySnapshot_remote_id onConflict_frame)
      then have "applySnapshot (ss @ [s]) x = onConflict s (applySnapshot ss x)"
        by (simp add: applySnapshot_snoc)
      also have "\<dots> = x"
        unfolding y(1) by (rule onConflict_absorbs)
      finally show ?thesis .
    qed
    show "applySnapshot (ss @ [s]) x = x"
    proof (cases "\<exists>r \<in> set (rows ?U). remote_id r = Some (rid s)")
      case True
      with x have "x \<in> (\<lambda>r. if remote_id r = Some (rid s) then onConflict s r else r) ` set (rows ?U)"
        by (simp add: upsertFromRemote_def)
      then obtain r0 where r0: "r0 \<in> set (rows ?U)"
        and xr: "x = (if remote_id r0 = Some (rid s) then onConflict s r0 else r0)"
        by (rule imageE)
      show ?thesis
      proof (cases "remote_id r0 = Some (rid s)")
        case True
        with xr show ?thesis by (intro goal [of r0]) simp_all
      next
        case False
        with xr have "x = r0" by simp
        with r0 snoc.IH have "applySnapshot ss x = x" by blast
        with False \<open>x = r0\<close> show ?thesis by (simp add: applySnapshot_snoc)
      qed
    next
      case False
      with x have "x \<in> set (rows ?U) \<or>
          x = \<lparr>todo_id = next_id ?U, remote_id = Some (rid s), todo_text = rtext s,
               completed = rcompleted s, dirty = 0, is_deleted = 0, created_at = ?now\<rparr>"
        by (auto simp: upsertFromRemote_def)
      then show ?thesis
      proof
        assume xu: "x \<in> set (rows ?U)"
        with snoc.IH have "applySnapshot ss x = x" by blast
        moreover from xu False have "remote_id x \<noteq> Some (rid s)" by blast
        ultimately show ?thesis by (simp add: applySnapshot_snoc)
      next
        assume "x = \<lparr>todo_id = next_id ?U, remote_id = Some (rid s), todo_text = rtext s,
               completed = rcompleted s, dirty = 0, is_deleted = 0, created_at = ?now\<rparr>"
        then have "x = onConflict s x" "remote_id x = Some (rid s)"
          by (simp_all add: onConflict_def)
        then show ?thesis by (rule goal)
      qed
    qed
  qed
qed

text \<open>When every id of the snapshot is already held locally, the upserts only update.\<close>

lemma upsertAll_present:
  "Some ` rid ` set ss \<subseteq> remote_id ` set (rows L) \<Longrightarrow>
     rows (upsertAll b clk k ss L) = map (applySnapshot ss) (rows L)"
proof (induction ss arbitrary: k L)
  case Nil
  then show ?case by (simp add: applySnapshot_Nil cong: map_cong)
next
  case (Cons s ss)
  let ?f = "\<lambda>r. if remote_id r = Some (rid s) then onConflict s r else r"
  from Cons.prems have in_ids: "Some (rid s) \<in> remote_id ` set (rows L)" by simp
  then have ex: "\<exists>r \<in> set (rows L). remote_id r = Some (rid s)" by force
  then have 1: "rows (upsertFromRemote b (clk k) s L) = map ?f (rows L)"
    by (simp add: upsertFromRemote_def)
  have "remote_id ` set (rows (upsertFromRemote b (clk k) s L)) = remote_id ` set (rows L)"
    using in_ids by (simp add: upsertFromRemote_remote_ids insert_absorb)
  with Cons.prems have "Some ` rid ` set ss \<subseteq> remote_id ` set (rows (upsertFromRemote b (clk k) s L))"
    by simp
  from Cons.IH [OF this, of "Suc k"] 1
  have "rows (upsertAll b clk k (s # ss) L) = map (applySnapshot ss) (map ?f (rows L))"
    by simp
  also have "map (applySnapshot ss) (map ?f (rows L)) = map (applySnapshot (s # ss)) (rows L)"
    by (simp add: applySnapshot_Cons)
  finally show ?case .
qed

lemma pullPhase_idempotent:
  "rows (pullPhase b' clk' ss (pullPhase b clk ss L)) = rows (pullPhase b clk ss L)"
proof -
  let ?U = "pullPhase b clk ss L"
  have stable: "map (applySnapshot ss) (rows ?U) = rows ?U"
    unfolding pullPhase_def using upsertAll_stable by (intro map_idI) blast
  have "Some ` rid ` set ss \<subseteq> remote_id ` set (rows ?U)"
    unfolding pullPhase_def by (simp add: upsertAll_remote_ids)
  then have "rows (upsertAll b' clk' 0 ss ?U) = map (applySnapshot ss) (rows ?U)"
    by (rule upsertAll_present)
  with stable have "rows (upsertAll b' clk' 0 ss ?U) = rows ?U" by simp
  then have "rows (upsertAll b' clk' 0 ss (deleteWhereRemoteIdNotIn (map rid ss) ?U)) = rows ?U"
    by (simp add: delete_after_pull)
  then show ?thesis by (simp add: pullPhase_def [of b' clk' ss ?U])
qed

subsection \<open>Two rounds in a row\<close>

lemma execute_RSelect_Inr:
  "execute e RSelect R = (Inr res, R') \<Longrightarrow>
     res = r_rows R \<and> r_rows R' = r_rows R \<and> r_log R' = r_log R @ [RSelect]"
  by (auto simp: execute_def split: option.splits)

lemma syncWithRemote_Completed:
  assumes "syncWithRemote e L R = (Completed, L1, R1)"
  shows "\<exists>Lp Rp. pushAll e (listSyncCandidates L) L R = (Completed, Lp, Rp) \<and>
           L1 = pullPhase (burn_id e) (clock e) (r_rows R1) Lp"
proof -
  obtain o1 Lp Rp where p: "pushAll e (listSyncCandidates L) L R = (o1, Lp, Rp)"
    by (metis prod_cases3)
  have o1: "o1 = Completed"
    using assms p by (cases o1) (simp_all add: syncWithRemote_def)
  obtain res R2 where x: "execute e RSelect Rp = (res, R2)"
    by (metis prod.exhaust)
  from assms p o1 x obtain ss where res: "res = Inr ss"
    and eq: "L1 = pullPhase (burn_id e) (clock e) ss Lp" "R1 = R2"
    by (cases res) (simp_all add: syncWithRemote_def)
  from execute_RSelect_Inr [OF x [unfolded res]] eq have "ss = r_rows R1" by simp
  with eq p o1 show ?thesis by blast
qed

text \<open>
  C1. When a round on a local table with unique ids has completed, a second round on the
  resulting stores, in any environment, leaves the local table and the remote table as
  they are: no row of the local table is a push candidate, so nothing is pushed or erased,
  the only statement sent to the remote is the SELECT of the snapshot, and the pull phase
  on that snapshot changes nothing (also when the SELECT fails).
\<close>

theorem sync_idempotent:
  assumes "distinct (map todo_id (rows L))"
    and "syncWithRemote e L R = (Completed, L1, R1)"
  shows "rows (fst (snd (syncWithRemote e' L1 R1))) = rows L1 \<and>
         r_rows (snd (snd (syncWithRemote e' L1 R1))) = r_rows R1 \<and>
         r_log (snd (snd (syncWithRemote e' L1 R1))) = r_log R1 @ [RSelect] \<and>
         listSyncCandidates L1 = []"
proof -
  from syncWithRemote_Completed [OF assms(2)] obtain Lp Rp
    where p: "pushAll e (listSyncCandidates L) L R = (Completed, Lp, Rp)"
      and L1: "L1 = pullPhase (burn_id e) (clock e) (r_rows R1) Lp"
    by blast
  from pushAll_no_candidates [OF push_inv_init [OF assms(1)] p]
  have "\<forall>r \<in> set (rows Lp). \<not> is_candidate r" .
  then have "\<forall>r \<in> set (rows L1). \<not> is_candidate r"
    unfolding L1 by (rule pullPhase_no_candidates)
  then have none: "listSyncCandidates L1 = []"
    by (simp add: listSyncCandidates_def)
  obtain res R2 where x: "execute e' RSelect R1 = (res, R2)"
    by (metis prod.exhaust)
  have log: "r_log R2 = r_log R1 @ [RSelect]"
    using x by (rule execute_log)
  show ?thesis
  proof (cases res)
    case (Inl err)
    with x none have "syncWithRemote e' L1 R1 = (Failed err, L1, R2)"
      by (simp add: syncWithRemote_def)
    moreover from execute_Inl x Inl have "r_rows R2 = r_rows R1" by blast
    ultimately show ?thesis using log none by simp
  next
    case (Inr ss)
    from execute_RSelect_Inr [OF x [unfolded Inr]]
    have ss: "ss = r_rows R1" and rr: "r_rows R2 = r_rows R1" by simp_all
    from x Inr none have "syncWithRemote e' L1 R1 = (Completed, pullPhase (burn_id e') (clock e') ss L1, R2)"
      by (simp add: syncWithRemote_def)
    moreover have "rows (pullPhase (burn_id e') (clock e') ss L1) = rows L1"
      unfolding ss L1 by (rule pullPhase_idempotent)
    ultimately show ?thesis using log rr none by simp
  qed
qed

theorem sync_idempotent_witness:
  "distinct (map todo_id (rows ex_local)) \<and>
   fst (syncWithRemote ex_env ex_local ex_remote) = Completed \<and>
   rows (fst (snd (syncWithRemote ex_flaky
               (fst (snd (syncWithRemote ex_env ex_local ex_remote)))
               (snd (snd (syncWithRemote ex_env ex_local ex_remote)))))) =
     rows (fst (snd (syncWithRemote ex_env ex_local ex_remote))) \<and>
   r_rows (snd (snd (syncWithRemote ex_flaky
               (fst (snd (syncWithRemote ex_env ex_local ex_remote)))
               (snd (snd (syncWithRemote ex_env ex_local ex_remote)))))) =
     r_rows (snd (snd (syncWithRemote ex_env ex_local ex_remote)))"
proof -
  have d: "distinct (map todo_id (rows ex_local))"
    by (simp add: ex_local_def)
  have run: "syncWithRemote ex_env ex_local ex_remote =
      (Completed, fst (snd (syncWithRemote ex_env ex_local ex_remote)),
       snd (snd (syncWithRemote ex_env ex_local ex_remote)))"
    by code_simp
  have out: "fst (syncWithRemote ex_env ex_local ex_remote) = Completed"
    by code_simp
  note T = sync_idempotent [OF d run, of ex_flaky]
  from d out T [THEN conjunct1] T [THEN conjunct2, THEN conjunct1] show ?thesis
    by (intro conjI)
qed

end
